theory Spec2Isabelle
  imports Complex_Main "HOL-Library.Log_Nat"
begin

section \<open>Python string primitives\<close>

text \<open>
  A Python \<open>str\<close> is modelled as a \<open>string\<close>; a \<open>char\<close> stands for the code point
  of the same number (U+0000 to U+00FF).  The library methods the program calls are
  written out below with the behaviour of CPython on that range.
\<close>

text \<open>\<open>str.isspace\<close> of one character: the characters \<open>str.split()\<close> and
  \<open>str.rstrip()\<close> treat as whitespace.\<close>

definition isspace :: "char \<Rightarrow> bool" where
  "isspace c = ((of_char c :: nat) \<in> {9, 10, 11, 12, 13, 28, 29, 30, 31, 32, 133, 160})"

text \<open>\<open>str.lower\<close>: the capital letters A to Z, and the capital letters of
  U+00C0 to U+00DE other than the multiplication sign, move up by 32.\<close>

definition lower_char :: "char \<Rightarrow> char" where
  "lower_char c =
     (let n = (of_char c :: nat)
      in if (65 \<le> n \<and> n \<le> 90) \<or> (192 \<le> n \<and> n \<le> 222 \<and> n \<noteq> 215)
         then char_of (n + 32) else c)"

definition lower :: "string \<Rightarrow> string" where
  "lower s = map lower_char s"

text \<open>\<open>str.rstrip()\<close>: drop the trailing whitespace.\<close>

definition rstrip :: "string \<Rightarrow> string" where
  "rstrip s = rev (dropWhile isspace (rev s))"

text \<open>\<open>s.count(sub)\<close>: the number of non-overlapping occurrences of \<open>sub\<close>, scanning
  from the left; the empty pattern occurs \<open>len(s) + 1\<close> times.\<close>

function count_str :: "string \<Rightarrow> string \<Rightarrow> nat" where
  "count_str [] sub = (if sub = [] then 1 else 0)"
| "count_str (c # cs) sub =
     (if sub = [] then Suc (count_str cs sub)
      else if take (length sub) (c # cs) = sub
           then Suc (count_str (drop (length sub) (c # cs)) sub)
           else count_str cs sub)"
  by pat_completeness auto
termination
  by (relation "measure (\<lambda>(s, sub). length s)") (auto simp: neq_Nil_conv)

text \<open>\<open>s.replace(old, new)\<close>: every non-overlapping occurrence of \<open>old\<close>, scanning from
  the left, becomes \<open>new\<close>; the empty pattern matches before every character and at
  the end.\<close>

function replace :: "string \<Rightarrow> string \<Rightarrow> string \<Rightarrow> string" where
  "replace [] old new = (if old = [] then new else [])"
| "replace (c # cs) old new =
     (if old = [] then new @ c # replace cs old new
      else if take (length old) (c # cs) = old
           then new @ replace (drop (length old) (c # cs)) old new
           else c # replace cs old new)"
  by pat_completeness auto
termination
  by (relation "measure (\<lambda>(s, old, new). length s)") (auto simp: neq_Nil_conv)

text \<open>\<open>s.split()\<close>: the maximal runs of non-whitespace characters, in order.\<close>

function split :: "string \<Rightarrow> string list" where
  "split [] = []"
| "split (c # cs) =
     (if isspace c then split cs
      else (c # takeWhile (\<lambda>x. \<not> isspace x) cs) # split (dropWhile (\<lambda>x. \<not> isspace x) cs))"
  by pat_completeness auto
termination
  by (relation "measure length") (auto simp: length_dropWhile_le less_Suc_eq_le)

text \<open>\<open>s.endswith(suffix)\<close>.\<close>

definition endswith :: "string \<Rightarrow> string \<Rightarrow> bool" where
  "endswith s suffix =
     (length suffix \<le> length s \<and> drop (length s - length suffix) s = suffix)"


section \<open>Syllable estimator\<close>

definition diphtohongList :: "string list" where
  "diphtohongList =
     [''oi'', ''oy'', ''ou'', ''ow'', ''ai'', ''au'', ''ay'', ''aw'', ''oo'', ''ie'', ''ea'', ''ee'']"

definition vowelList :: "string list" where
  "vowelList = [''a'', ''e'', ''i'', ''o'', ''u'', ''y'']"

definition specialCases :: "string list" where
  "specialCases =
     [''recipe'', ''apostrophe'', ''catastrophe'', ''acne'', ''epitome'', ''karate'', ''sesame'',
      ''posse'', ''vigilante'', ''cliche'', ''fiance'', ''resume'', ''middle'', ''the'']"

text \<open>Step (1) of \<open>syllablesPerWord\<close>: the loop over \<open>vowelList\<close>, on the lowercased word.\<close>

definition count_vowels :: "string \<Rightarrow> int" where
  "count_vowels word =
     foldl (\<lambda>wordVowels nextVowel. wordVowels + int (count_str word nextVowel)) 0 vowelList"

text \<open>Step (2): the silent \<open>e\<close>.\<close>

definition silent_e :: "string \<Rightarrow> int \<Rightarrow> int" where
  "silent_e word wordVowels =
     (if endswith word ''e'' \<and> word \<notin> set specialCases
      then (if wordVowels \<noteq> 0 then wordVowels - 1 else wordVowels)
      else wordVowels)"

text \<open>Step (3): the loop over \<open>diphtohongList\<close>.\<close>

definition subtract_diphthongs :: "string \<Rightarrow> int \<Rightarrow> int" where
  "subtract_diphthongs word wordVowels =
     foldl (\<lambda>wordVowels diphthong. wordVowels - int (count_str word diphthong))
       wordVowels diphtohongList"

text \<open>The value of \<open>wordVowels\<close> when the last test of \<open>syllablesPerWord\<close> is reached.\<close>

definition wordVowels_final :: "string \<Rightarrow> int" where
  "wordVowels_final word0 =
     (let word = lower word0
      in subtract_diphthongs word (silent_e word (count_vowels word)))"

text \<open>The console output of \<open>syllablesPerWord\<close> (three debugging lines) is not part of
  the returned value and is left out.\<close>

definition syllablesPerWord :: "string \<Rightarrow> int" where
  "syllablesPerWord word0 =
     (let wordVowels = wordVowels_final word0
      in if wordVowels = 0 then 1 else wordVowels)"

text \<open>The estimator as section 4.3 of the specification words it: lowercase, add the
  occurrence counts of the six vowel characters, take one off for a final \<open>e\<close> outside
  the exception list when the count is not zero, take off the non-overlapping count of
  every diphthong, and return 1 for any result that is not positive.\<close>

definition spec_vowel_sum :: "string \<Rightarrow> int" where
  "spec_vowel_sum w = (\<Sum>c\<leftarrow>''aeiouy''. int (count_list w c))"

definition spec_silent_e :: "string \<Rightarrow> int \<Rightarrow> int" where
  "spec_silent_e w n =
     (if w \<noteq> [] \<and> last w = CHR ''e'' \<and> w \<notin> set specialCases \<and> n \<noteq> 0 then n - 1 else n)"

definition spec_diphthongs :: "string \<Rightarrow> int" where
  "spec_diphthongs w = (\<Sum>d\<leftarrow>diphtohongList. int (count_str w d))"

definition syllables_spec :: "string \<Rightarrow> int" where
  "syllables_spec word =
     (let w = lower word;
          r = spec_silent_e w (spec_vowel_sum w) - spec_diphthongs w
      in if r \<le> 0 then 1 else r)"

text \<open>Auxiliary counts for the analysis of the estimator: the positions at which a
  two-character pattern starts, the positions at which any diphthong starts, and the
  vowel characters.\<close>

fun occ :: "string \<Rightarrow> string \<Rightarrow> nat" where
  "occ d (a # b # cs) = (if d = [a, b] then 1 else 0) + occ d (b # cs)"
| "occ d _ = 0"

fun dpos :: "string \<Rightarrow> nat" where
  "dpos (a # b # cs) = (if [a, b] \<in> set diphtohongList then 1 else 0) + dpos (b # cs)"
| "dpos _ = 0"

definition isvowel :: "char \<Rightarrow> bool" where
  "isvowel c = (c \<in> set ''aeiouy'')"

definition final_e :: "string \<Rightarrow> nat" where
  "final_e w = (if endswith w ''e'' then 1 else 0)"

section \<open>Corpus metrics\<close>

definition SENTENCE_MARKER :: string where
  "SENTENCE_MARKER = ''XXX''"

definition getNumberOfTotalWords :: "string \<Rightarrow> int" where
  "getNumberOfTotalWords s =
     (let withOutDelimiters = replace s SENTENCE_MARKER '' '';
          wordList = split withOutDelimiters
      in int (length wordList))"

definition getNumberOfTotalSentences :: "string \<Rightarrow> int" where
  "getNumberOfTotalSentences s = int (count_str s SENTENCE_MARKER)"

definition getNumberOfTotalSyllables :: "string \<Rightarrow> int" where
  "getNumberOfTotalSyllables s =
     (let withOutDelimiters = replace s SENTENCE_MARKER '' '';
          words = split withOutDelimiters
      in foldl (\<lambda>totalSyllables word. totalSyllables + syllablesPerWord word) 0 words)"

section \<open>Punctuation stripper\<close>

text \<open>\<open>string.punctuation\<close>, the 32 ASCII punctuation characters in the order of the
  Python library.\<close>

definition punctuation :: string where
  "punctuation =
     ''!'' @ [CHR 0x22] @ ''#$%&'' @ [CHR 0x27] @ ''()*+,-./:;<=>?@['' @ [CHR 0x5C] @
     '']^_'' @ [CHR 0x60] @ ''{|}~''"

definition remove_punctuation :: "string \<Rightarrow> string" where
  "remove_punctuation s =
     foldl (\<lambda>s_without_punct letter.
              if letter \<notin> set punctuation then s_without_punct @ [letter]
              else s_without_punct)
       [] s"

section \<open>Normalizer\<close>

definition MARK :: string where
  "MARK = '' '' @ SENTENCE_MARKER @ '' ''"

text \<open>The body of the loop of \<open>getData\<close>: what one line of the file contributes.\<close>

definition abbreviations :: "string \<Rightarrow> string" where
  "abbreviations nextLine0 =
     (let nextLine = replace nextLine0 ''mr.'' ''mr'';
          nextLine = replace nextLine ''mrs.'' ''mrs'';
          nextLine = replace nextLine ''ms.'' ''ms'';
          nextLine = replace nextLine ''dr.'' ''dr'';
          nextLine = replace nextLine ''st.'' ''st'';
          nextLine = replace nextLine ''prof.'' ''prof''
      in nextLine)"

definition mark_sentences :: "string \<Rightarrow> string" where
  "mark_sentences nextLine0 =
     (let nextLine = replace nextLine0 ''.'' MARK;
          nextLine = replace nextLine ''?'' MARK;
          nextLine = replace nextLine ''!'' MARK
      in nextLine)"

definition process_line :: "string \<Rightarrow> string" where
  "process_line nextLine0 =
     (let nextLine = rstrip nextLine0;
          nextLine = lower nextLine;
          nextLine = abbreviations nextLine;
          nextLine = mark_sentences nextLine
      in nextLine)"

text \<open>\<open>getData\<close> on the lines of the file it has opened; asking for the file name and
  reading the file belong to the environment.\<close>

definition getData :: "string list \<Rightarrow> string" where
  "getData INPUT =
     foldl (\<lambda>fileAsOneString nextLine. fileAsOneString @ process_line nextLine) [] INPUT"

section \<open>Floating-point arithmetic\<close>

text \<open>
  A Python \<open>float\<close> is an IEEE 754 binary64 number.  A finite float is modelled by the
  rational number it denotes, and every operation by the exact result rounded to the
  nearest number with a significand of 53 bits, ties going to the even significand.
  The range of the exponent is not bounded here: overflow (to infinity, or the
  \<open>OverflowError\<close> of \<open>/\<close> on integers) and the coarser spacing of the numbers below
  \<open>2 powi (- 1022)\<close> are left out; they need counts beyond any text.
\<close>

text \<open>The nearest integer, a tie going to the even one.\<close>

definition round_half_even :: "rat \<Rightarrow> int" where
  "round_half_even x =
     (let f = \<lfloor>x\<rfloor>; d = x - of_int f
      in if d < 1 / 2 then f else if 1 / 2 < d then f + 1 else if even f then f else f + 1)"

text \<open>The exponent \<open>e\<close> of a non-zero number: \<open>2 powi e \<le> \<bar>x\<bar> < 2 powi (e + 1)\<close>,
  read off the number of bits of the integer part of \<open>\<bar>x\<bar>\<close> or of its inverse.\<close>

definition binary_exponent :: "rat \<Rightarrow> int" where
  "binary_exponent x =
     (if 1 \<le> \<bar>x\<bar> then bitlen \<lfloor>\<bar>x\<bar>\<rfloor> - 1 else - bitlen (\<lceil>1 / \<bar>x\<bar>\<rceil> - 1))"

text \<open>Rounding to a float: the number is scaled so that its significand is an integer of
  53 bits, which is rounded.\<close>

definition round_double :: "rat \<Rightarrow> rat" where
  "round_double x =
     (if x = 0 then 0
      else let ulp = 2 powi (binary_exponent x - 52)
           in of_int (round_half_even (x / ulp)) * ulp)"

text \<open>\<open>*\<close>, \<open>+\<close> and \<open>-\<close> on floats.\<close>

definition float_mul :: "rat \<Rightarrow> rat \<Rightarrow> rat" where
  "float_mul x y = round_double (x * y)"

definition float_add :: "rat \<Rightarrow> rat \<Rightarrow> rat" where
  "float_add x y = round_double (x + y)"

definition float_sub :: "rat \<Rightarrow> rat \<Rightarrow> rat" where
  "float_sub x y = round_double (x - y)"

section \<open>Readability formulas\<close>

datatype error = ZeroDivisionError

text \<open>Python's \<open>/\<close> on two integers: the quotient, correctly rounded to a float.\<close>

definition truediv :: "int \<Rightarrow> int \<Rightarrow> error + rat" where
  "truediv a b =
     (if b = 0 then Inl ZeroDivisionError else Inr (round_double (of_int a / of_int b)))"

text \<open>A decimal literal of the source denotes the float nearest to it, hence
  \<open>round_double\<close> around each constant.  The guard returns the integer 0.\<close>

definition compute_FleschReadingEase :: "int \<Rightarrow> int \<Rightarrow> int \<Rightarrow> error + rat" where
  "compute_FleschReadingEase totalSyllables totalWords totalSentences =
     (if totalSyllables = 0 \<or> totalWords = 0 \<or> totalSentences = 0 then Inr 0
      else case truediv totalWords totalSentences of
             Inl e \<Rightarrow> Inl e
           | Inr wps \<Rightarrow>
               (case truediv totalSyllables totalWords of
                  Inl e \<Rightarrow> Inl e
                | Inr spw \<Rightarrow>
                    Inr (float_sub
                           (float_sub (round_double 206.835) (float_mul (round_double 1.015) wps))
                           (float_mul (round_double 84.6) spw))))"

definition compute_FleschKincaidGradeLevel :: "int \<Rightarrow> int \<Rightarrow> int \<Rightarrow> error + rat" where
  "compute_FleschKincaidGradeLevel totalSyllables totalWords totalSentences =
     (if totalSyllables = 0 \<or> totalWords = 0 \<or> totalSentences = 0 then Inr 0
      else case truediv totalWords totalSentences of
             Inl e \<Rightarrow> Inl e
           | Inr wps \<Rightarrow>
               (case truediv totalSyllables totalWords of
                  Inl e \<Rightarrow> Inl e
                | Inr spw \<Rightarrow>
                    Inr (float_sub
                           (float_add (float_mul (round_double 0.39) wps)
                              (float_mul (round_double 11.8) spw))
                           (round_double 15.59))))"

section \<open>Frequency analyzer\<close>

text \<open>The dictionary \<open>WC\<close> keeps its keys in insertion order, and that order decides
  the ranking of ties, so it is an association list with one entry per key.\<close>

type_synonym word_counts = "(string \<times> int) list"

text \<open>\<open>d[k] = v\<close>: an existing key keeps its place, a new key goes to the end.\<close>

fun dict_set :: "word_counts \<Rightarrow> string \<Rightarrow> int \<Rightarrow> word_counts" where
  "dict_set [] k v = [(k, v)]"
| "dict_set ((k', v') # rest) k v =
     (if k' = k then (k', v) # rest else (k', v') # dict_set rest k v)"

text \<open>One round of the counting loop of \<open>printTopNwords\<close>.\<close>

definition count_word :: "word_counts \<Rightarrow> string \<Rightarrow> word_counts" where
  "count_word WC nextWord =
     (case map_of WC nextWord of
        Some n \<Rightarrow> dict_set WC nextWord (n + 1)
      | None \<Rightarrow> dict_set WC nextWord 1)"

definition count_words :: "string list \<Rightarrow> word_counts" where
  "count_words listOfWords = foldl count_word [] listOfWords"

text \<open>\<open>dict(items)\<close>: the items are stored one after the other.\<close>

definition dict_of :: "(string \<times> int) list \<Rightarrow> word_counts" where
  "dict_of items = foldl (\<lambda>d (k, v). dict_set d k v) [] items"

text \<open>\<open>sorted(WC.items(), key=lambda x: x[1], reverse=True)\<close>: Python's sort is stable,
  also with \<open>reverse=True\<close>, so this is the stable sort on the negated count.\<close>

definition sorted_WC :: "word_counts \<Rightarrow> word_counts" where
  "sorted_WC WC = dict_of (sort_key (\<lambda>x. - snd x) WC)"

text \<open>The output loop, with the counter \<open>count\<close> as an argument; an entry
  \<open>(nextCount, nextWord)\<close> is one line of the report.\<close>

fun top_loop :: "word_counts \<Rightarrow> int \<Rightarrow> int \<Rightarrow> (int \<times> string) list" where
  "top_loop [] N count = []"
| "top_loop ((nextWord, nextCount) # rest) N count =
     (if nextWord \<noteq> ''XXX'' \<and> count \<le> N
      then (nextCount, nextWord) # top_loop rest N (count + 1)
      else top_loop rest N count)"

definition listOfWords :: "string \<Rightarrow> string list" where
  "listOfWords s = split (remove_punctuation s)"

definition ranking :: "string \<Rightarrow> word_counts" where
  "ranking s = sorted_WC (count_words (listOfWords s))"

definition top_entries :: "string \<Rightarrow> int \<Rightarrow> (int \<times> string) list" where
  "top_entries s N = top_loop (ranking s) N 1"

text \<open>\<open>str\<close> of an integer.\<close>

fun digits :: "nat \<Rightarrow> string" where
  "digits n =
     (if n < 10 then [char_of (48 + n)] else digits (n div 10) @ [char_of (48 + n mod 10)])"

declare digits.simps [simp del]

definition str_int :: "int \<Rightarrow> string" where
  "str_int i = (if i < 0 then CHR ''-'' # digits (nat (- i)) else digits (nat i))"

definition newline :: string where
  "newline = [CHR 0x0A]"

text \<open>\<open>printTopNwords\<close> returns nothing; the model returns what it appends to
  \<open>report.csv\<close>, one string for each call of \<open>write\<close>.\<close>

definition printTopNwords :: "string \<Rightarrow> int \<Rightarrow> string list" where
  "printTopNwords s N =
     (newline @ newline @ ''TOP WORDS HERE'' @ newline) #
     map (\<lambda>(nextCount, nextWord). str_int nextCount @ '','' @ nextWord @ newline)
       (top_entries s N)"

text \<open>The position of the first occurrence of a token, for stating the order of ties.\<close>

definition first_seen :: "string list \<Rightarrow> string \<Rightarrow> nat" where
  "first_seen ws w = length (takeWhile (\<lambda>x. x \<noteq> w) ws)"

definition ranks_before :: "string list \<Rightarrow> string \<times> int \<Rightarrow> string \<times> int \<Rightarrow> bool" where
  "ranks_before ws p q =
     (snd q < snd p \<or> (snd p = snd q \<and> first_seen ws (fst p) < first_seen ws (fst q)))"

section \<open>The run\<close>

definition TOP_N_WORDS :: int where
  "TOP_N_WORDS = 10"

text \<open>What a run leaves behind: either \<open>report.csv\<close>, with the row of
  \<open>printReadingLevelReport\<close> (its five values, before they are formatted) and the
  strings appended by \<open>printTopNwords\<close>, or no file and the message printed instead.\<close>

record report =
  syllables :: int
  words :: int
  sentences :: int
  readingEase :: rat
  readingLevel :: rat
  top_section :: "string list"

datatype outcome = Report_written report | No_report string

definition printReadingLevelReport :: "int \<Rightarrow> int \<Rightarrow> int \<Rightarrow> rat \<Rightarrow> rat \<Rightarrow> report" where
  "printReadingLevelReport totalSyllables totalWords totalSentences ease level =
     \<lparr>syllables = totalSyllables, words = totalWords, sentences = totalSentences,
      readingEase = ease, readingLevel = level, top_section = []\<rparr>"

text \<open>\<open>main\<close> from the string \<open>getData\<close> returned.  An exception raised by one of the
  formulas would end the run and is the \<open>Inl\<close> result.\<close>

definition main_on :: "string \<Rightarrow> error + outcome" where
  "main_on fileAsString =
     (let totalSyllables = getNumberOfTotalSyllables fileAsString;
          totalWords = getNumberOfTotalWords fileAsString;
          totalSentences = getNumberOfTotalSentences fileAsString
      in if totalWords > 0 \<and> totalSentences > 0
         then (case compute_FleschReadingEase totalSyllables totalWords totalSentences of
                 Inl e \<Rightarrow> Inl e
               | Inr ease \<Rightarrow>
                   (case compute_FleschKincaidGradeLevel totalSyllables totalWords totalSentences of
                      Inl e \<Rightarrow> Inl e
                    | Inr level \<Rightarrow>
                        Inr (Report_written
                          ((printReadingLevelReport totalSyllables totalWords totalSentences
                              ease level)
                           \<lparr>top_section := printTopNwords fileAsString TOP_N_WORDS\<rparr>))))
         else Inr (No_report ''ERROR:  Can not compute metrics without words.''))"

definition main :: "string list \<Rightarrow> error + outcome" where
  "main INPUT = main_on (getData INPUT)"


section \<open>Properties of the syllable estimator and the corpus metrics\<close>

lemma indicator_sum: "distinct ds \<Longrightarrow> (\<Sum>d\<leftarrow>ds. (if d = x then 1 else 0)) = (if x \<in> set ds then 1 else (0::nat))"
  by (induction ds) auto

lemma count_str_single: "count_str w [c] = count_list w c"
  by (induction w) auto

lemma occ_tl: "occ d cs \<le> occ d (b # cs)"
  by (cases cs) auto

lemma count_str_le_occ: "length d = 2 \<Longrightarrow> count_str w d \<le> occ d w"
proof (induction "length w" arbitrary: w rule: less_induct)
  case less
  show ?case
  proof (cases w)
    case Nil
    with less.prems show ?thesis by auto
  next
    case (Cons a as)
    note wa = Cons
    show ?thesis
    proof (cases as)
      case Nil
      with wa less.prems show ?thesis by auto
    next
      case (Cons b cs)
      have dne: "d \<noteq> []" using less.prems by auto
      show ?thesis
      proof (cases "d = [a, b]")
        case True
        have "count_str cs d \<le> occ d cs" using less.hyps[of cs] less.prems wa Cons by simp
        also have "\<dots> \<le> occ d (b # cs)" by (rule occ_tl)
        finally show ?thesis using True wa Cons by simp
      next
        case False
        have "count_str (b # cs) d \<le> occ d (b # cs)"
          using less.hyps[of "b # cs"] less.prems wa Cons by simp
        moreover have "take (length d) w \<noteq> d" using False less.prems wa Cons by simp
        ultimately show ?thesis using False wa Cons dne by simp
      qed
    qed
  qed
qed

lemma sum_occ_dpos: "(\<Sum>d\<leftarrow>diphtohongList. occ d w) = dpos w"
proof (induction w rule: dpos.induct)
  case (1 a b cs)
  have dist: "distinct diphtohongList" by (simp add: diphtohongList_def)
  have "(\<Sum>d\<leftarrow>diphtohongList. occ d (a # b # cs))
        = (\<Sum>d\<leftarrow>diphtohongList. (if d = [a, b] then 1 else 0)) + (\<Sum>d\<leftarrow>diphtohongList. occ d (b # cs))"
    by (simp add: sum_list_addf)
  then show ?case using 1 indicator_sum[OF dist, of "[a,b]"] by simp
qed simp_all


lemma diphthong_starts_with_vowel: "[a, b] \<in> set diphtohongList \<Longrightarrow> isvowel a"
  by (auto simp: diphtohongList_def isvowel_def)

lemma final_e_Cons: "final_e (a # b # cs) = final_e (b # cs)"
  by (simp add: final_e_def endswith_def Suc_diff_le)

lemma final_e_single: "final_e [a] \<le> length (filter isvowel [a])"
  by (simp add: final_e_def endswith_def isvowel_def)

lemma dpos_le_vowels: "dpos w + final_e w \<le> length (filter isvowel w)"
proof (induction w rule: dpos.induct)
  case (1 a b cs)
  then show ?case
    using diphthong_starts_with_vowel[of a b] by (auto simp: final_e_Cons split: if_splits)
qed (simp_all add: final_e_def endswith_def isvowel_def)

lemma sum_count_str_le_dpos: "(\<Sum>d\<leftarrow>diphtohongList. count_str w d) \<le> dpos w"
proof -
  have "(\<Sum>d\<leftarrow>diphtohongList. count_str w d) \<le> (\<Sum>d\<leftarrow>diphtohongList. occ d w)"
    by (rule sum_list_mono) (auto simp: diphtohongList_def intro!: count_str_le_occ)
  then show ?thesis by (simp add: sum_occ_dpos)
qed

lemma sum_count_list_filter:
  "distinct cs \<Longrightarrow> (\<Sum>c\<leftarrow>cs. count_list w c) = length (filter (\<lambda>x. x \<in> set cs) w)"
proof (induction w)
  case Nil
  then show ?case by (induction cs) auto
next
  case (Cons a w)
  have "(\<Sum>c\<leftarrow>cs. count_list (a # w) c)
        = (\<Sum>c\<leftarrow>cs. (if c = a then 1 else 0)) + (\<Sum>c\<leftarrow>cs. count_list w c)"
  proof -
    have "(\<Sum>c\<leftarrow>cs. count_list (a # w) c)
          = (\<Sum>c\<leftarrow>cs. (if c = a then 1 else 0) + count_list w c)"
      by (rule arg_cong[where f = sum_list]) auto
    then show ?thesis by (simp add: sum_list_addf)
  qed
  then show ?case using Cons indicator_sum[of cs a] by simp
qed

lemma foldl_add_int:
  "foldl (\<lambda>v x. v + int (f x)) v0 xs = v0 + int (\<Sum>x\<leftarrow>xs. f x)"
  by (induction xs arbitrary: v0) auto

lemma foldl_sub_int:
  "foldl (\<lambda>v x. v - int (f x)) v0 xs = v0 - int (\<Sum>x\<leftarrow>xs. f x)"
  by (induction xs arbitrary: v0) auto

lemma count_vowels_eq: "count_vowels w = int (length (filter isvowel w))"
proof -
  have "count_vowels w = int (\<Sum>c\<leftarrow>''aeiouy''. count_list w c)"
    by (simp add: count_vowels_def vowelList_def count_str_single)
  also have "\<dots> = int (length (filter (\<lambda>x. x \<in> set ''aeiouy'') w))"
    by (subst sum_count_list_filter) simp_all
  finally show ?thesis by (simp add: isvowel_def[abs_def])
qed

lemma subtract_diphthongs_eq:
  "subtract_diphthongs w v = v - int (\<Sum>d\<leftarrow>diphtohongList. count_str w d)"
  unfolding subtract_diphthongs_def by (rule foldl_sub_int)

lemma silent_e_ge: "silent_e w (count_vowels w) \<ge> count_vowels w - int (final_e w)"
  by (simp add: silent_e_def final_e_def)

lemma arith_nonneg: "0 \<le> subtract_diphthongs w (silent_e w (count_vowels w))"
proof -
  have "int (\<Sum>d\<leftarrow>diphtohongList. count_str w d) + int (final_e w) \<le> count_vowels w"
    using sum_count_str_le_dpos[of w] dpos_le_vowels[of w] by (simp add: count_vowels_eq)
  then show ?thesis using silent_e_ge[of w] by (simp add: subtract_diphthongs_eq)
qed

lemma wordVowels_final_nonneg: "0 \<le> wordVowels_final word"
  by (simp add: wordVowels_final_def Let_def arith_nonneg)

lemma syllablesPerWord_ge1: "1 \<le> syllablesPerWord word"
  using wordVowels_final_nonneg[of word] by (simp add: syllablesPerWord_def Let_def)

lemma endswith_e: "endswith w ''e'' \<longleftrightarrow> w \<noteq> [] \<and> last w = CHR ''e''"
proof (cases w rule: rev_cases)
  case Nil
  then show ?thesis by (simp add: endswith_def)
next
  case (snoc ys y)
  then show ?thesis by (auto simp: endswith_def)
qed

lemma spec_vowel_sum_eq: "spec_vowel_sum w = count_vowels w"
proof -
  have "spec_vowel_sum w = int (\<Sum>c\<leftarrow>''aeiouy''. count_list w c)"
    by (simp add: spec_vowel_sum_def)
  also have "\<dots> = count_vowels w"
    by (simp add: count_vowels_def vowelList_def count_str_single)
  finally show ?thesis .
qed

lemma spec_silent_e_eq: "spec_silent_e w n = silent_e w n"
  by (simp add: spec_silent_e_def silent_e_def endswith_e)

lemma int_sum_list_map: "int (\<Sum>x\<leftarrow>xs. f x) = (\<Sum>x\<leftarrow>xs. int (f x))"
  by (induction xs) auto

lemma spec_diphthongs_eq: "subtract_diphthongs w v = v - spec_diphthongs w"
  by (simp add: subtract_diphthongs_eq spec_diphthongs_def int_sum_list_map)

text \<open>
  Claim C1.  For every non-empty word, \<open>syllablesPerWord\<close> returns an integer that is at
  least 1.  The value the vowel arithmetic leaves in \<open>wordVowels\<close> is never negative, so
  the final test of the source (\<open>wordVowels == 0\<close>) sends every result that is not
  positive to 1.
\<close>

theorem syllablesPerWord_floor:
  "word \<noteq> [] \<Longrightarrow>
     1 \<le> syllablesPerWord word \<and>
     0 \<le> wordVowels_final word \<and>
     syllablesPerWord word = (if wordVowels_final word \<le> 0 then 1 else wordVowels_final word)"
  using wordVowels_final_nonneg[of word] by (simp add: syllablesPerWord_def Let_def)

theorem syllablesPerWord_floor_witness:
  "''owe'' \<noteq> [] \<and> 1 \<le> syllablesPerWord ''owe'' \<and> 0 \<le> wordVowels_final ''owe'' \<and>
   syllablesPerWord ''owe'' = (if wordVowels_final ''owe'' \<le> 0 then 1 else wordVowels_final ''owe'')"
  using syllablesPerWord_floor[of "''owe''"] by simp

text \<open>
  Claim C2.  For every non-empty word, \<open>syllablesPerWord\<close> computes what the algorithm
  of section 4.3 of the specification computes: lowercase; sum of the occurrence counts
  of a, e, i, o, u, y; minus 1 for a final e outside the exception list when the count
  is not zero; minus the non-overlapping count of each of the twelve diphthongs; 1 if
  the result is not positive.
\<close>

theorem syllablesPerWord_refines_spec:
  "word \<noteq> [] \<Longrightarrow> syllablesPerWord word = syllables_spec word"
  using wordVowels_final_nonneg[of word]
  by (simp add: syllablesPerWord_def syllables_spec_def wordVowels_final_def Let_def
      spec_vowel_sum_eq spec_silent_e_eq spec_diphthongs_eq)

theorem syllablesPerWord_refines_spec_witness:
  "''Queue'' \<noteq> [] \<and> syllablesPerWord ''Queue'' = syllables_spec ''Queue''"
  using syllablesPerWord_refines_spec[of "''Queue''"] by simp

lemma foldl_syllables_ge:
  "acc + int (length ws) \<le> foldl (\<lambda>totalSyllables word. totalSyllables + syllablesPerWord word) acc ws"
proof (induction ws arbitrary: acc)
  case Nil
  show ?case by simp
next
  case (Cons w ws)
  have "acc + int (length (w # ws)) \<le> (acc + syllablesPerWord w) + int (length ws)"
    using syllablesPerWord_ge1[of w] by simp
  also have "\<dots> \<le> foldl (\<lambda>totalSyllables word. totalSyllables + syllablesPerWord word) (acc + syllablesPerWord w) ws"
    by (rule Cons.IH)
  finally show ?case by simp
qed

text \<open>
  Claim C10.  For every string, the total syllable count is at least the total word
  count: both functions split the same string (marker replaced by a space) into the
  same tokens, and every token contributes at least one syllable.
\<close>

theorem total_syllables_ge_total_words:
  "getNumberOfTotalWords s \<le> getNumberOfTotalSyllables s"
  using foldl_syllables_ge[of 0 "split (replace s SENTENCE_MARKER '' '')"]
  by (simp add: getNumberOfTotalWords_def getNumberOfTotalSyllables_def Let_def)

section \<open>Properties of the punctuation stripper\<close>

lemma remove_punctuation_loop:
  "foldl (\<lambda>s_without_punct letter.
            if letter \<notin> set punctuation then s_without_punct @ [letter] else s_without_punct)
     acc s
   = acc @ filter (\<lambda>c. c \<notin> set punctuation) s"
  by (induction s arbitrary: acc) simp_all

lemma remove_punctuation_filter:
  "remove_punctuation s = filter (\<lambda>c. c \<notin> set punctuation) s"
  by (simp add: remove_punctuation_def remove_punctuation_loop)

text \<open>
  Claim C9.  For every string, \<open>remove_punctuation\<close> returns the string with no
  character of \<open>string.punctuation\<close> left, and the other characters are all kept, in
  their order, with nothing put in: the result is the input filtered.  The function is
  a loop over the characters with no failing step, hence total.
\<close>

theorem remove_punctuation_correct:
  "remove_punctuation s = filter (\<lambda>c. c \<notin> set punctuation) s \<and>
   set (remove_punctuation s) \<inter> set punctuation = {} \<and>
   set (remove_punctuation s) = set s - set punctuation"
  by (auto simp: remove_punctuation_filter)

section \<open>Properties of the floating-point arithmetic\<close>

lemma exponent_le:
  fixes y :: rat
  assumes "2 powi a \<le> y" "y < 2 powi (e + 1)"
  shows "a \<le> e"
proof (rule ccontr)
  assume "\<not> a \<le> e"
  then have "e + 1 \<le> a" by simp
  then have "(2::rat) powi (e + 1) \<le> 2 powi a" by (intro power_int_increasing) simp_all
  with assms show False by simp
qed

lemma exponent_unique:
  fixes y :: rat
  assumes "2 powi a \<le> y" "y < 2 powi (a + 1)" "2 powi e \<le> y" "y < 2 powi (e + 1)"
  shows "a = e"
  using exponent_le[OF assms(1,4)] exponent_le[OF assms(3,2)] by simp

lemma binary_exponent_bounds:
  assumes "x \<noteq> 0"
  shows "2 powi binary_exponent x \<le> \<bar>x\<bar> \<and> \<bar>x\<bar> < 2 powi (binary_exponent x + 1)"
proof (cases "1 \<le> \<bar>x\<bar>")
  case True
  let ?n = "\<lfloor>\<bar>x\<bar>\<rfloor>"
  let ?b = "bitlen ?n"
  have n: "0 < ?n" using True by simp
  have b1: "1 \<le> ?b" using n by (simp add: bitlen_alt_def)
  from bitlen_bounds[OF n] have lo: "2 ^ nat (?b - 1) \<le> ?n" and hi: "?n < 2 ^ nat ?b" by simp_all
  have "(2::rat) powi (?b - 1) = of_int (2 ^ nat (?b - 1))"
    using b1 by (simp add: power_int_def)
  also have "\<dots> \<le> of_int ?n" using lo by (simp only: of_int_le_iff)
  also have "\<dots> \<le> \<bar>x\<bar>" by simp
  finally have L: "2 powi (?b - 1) \<le> \<bar>x\<bar>" .
  have "?n + 1 \<le> 2 ^ nat ?b" using hi by simp
  then have "(of_int (?n + 1) :: rat) \<le> of_int (2 ^ nat ?b)" by (simp only: of_int_le_iff)
  moreover have "\<bar>x\<bar> < of_int (?n + 1)" by linarith
  moreover have "(of_int (2 ^ nat ?b) :: rat) = 2 powi ?b" using b1 by (simp add: power_int_def)
  ultimately have U: "\<bar>x\<bar> < 2 powi ?b" by simp
  show ?thesis using True L U by (simp add: binary_exponent_def)
next
  case False
  let ?y = "1 / \<bar>x\<bar>"
  let ?m = "\<lceil>?y\<rceil>"
  let ?b = "bitlen (?m - 1)"
  have xpos: "0 < \<bar>x\<bar>" using assms by simp
  have y1: "1 < ?y" using False xpos by simp
  have m2: "2 \<le> ?m" using y1 by (simp add: less_ceiling_iff le_less One_nat_def) linarith
  have n: "0 < ?m - 1" using m2 by simp
  have b1: "1 \<le> ?b" using n by (simp add: bitlen_alt_def)
  from bitlen_bounds[OF n] have lo: "2 ^ nat (?b - 1) \<le> ?m - 1" and hi: "?m - 1 < 2 ^ nat ?b"
    by simp_all
  have ylo: "of_int (?m - 1) < ?y" by linarith
  have yhi: "?y \<le> of_int ?m" by simp
  have "(2::rat) ^ nat (?b - 1) = of_int (2 ^ nat (?b - 1))" by simp
  also have "\<dots> \<le> of_int (?m - 1)" using lo by (simp only: of_int_le_iff)
  finally have A: "(2::rat) ^ nat (?b - 1) < ?y" using ylo by simp
  have "?m \<le> 2 ^ nat ?b" using hi by simp
  then have "(of_int ?m :: rat) \<le> of_int (2 ^ nat ?b)" by (simp only: of_int_le_iff)
  with yhi have "?y \<le> of_int (2 ^ nat ?b)" by (rule order_trans)
  then have B: "?y \<le> (2::rat) ^ nat ?b" by simp
  have L: "2 powi (- ?b) \<le> \<bar>x\<bar>"
  proof -
    have "1 \<le> \<bar>x\<bar> * 2 ^ nat ?b" using B xpos by (simp add: field_simps)
    then show ?thesis using b1 by (simp add: power_int_def field_simps)
  qed
  have U: "\<bar>x\<bar> < 2 powi (- ?b + 1)"
  proof -
    have P: "(0::rat) < 2 ^ nat (?b - 1)" by simp
    have "\<bar>x\<bar> * 2 ^ nat (?b - 1) < 1" using A xpos by (simp add: field_simps)
    then have "\<bar>x\<bar> < 1 / 2 ^ nat (?b - 1)" using P by (simp only: pos_less_divide_eq)
    moreover have "(2::rat) powi (- ?b + 1) = 1 / 2 ^ nat (?b - 1)"
      using b1 by (simp add: power_int_def field_simps)
    ultimately show ?thesis by (simp only:)
  qed
  show ?thesis using False L U by (simp add: binary_exponent_def)
qed

lemma binary_exponent_eq:
  assumes "2 powi e \<le> \<bar>x\<bar>" "\<bar>x\<bar> < 2 powi (e + 1)"
  shows "binary_exponent x = e"
proof -
  have "x \<noteq> 0"
  proof
    assume "x = 0"
    with assms(1) have "2 powi e \<le> (0::rat)" by simp
    moreover have "(0::rat) < 2 powi e" by simp
    ultimately show False by linarith
  qed
  from binary_exponent_bounds[OF this] show ?thesis
    using exponent_unique[of "binary_exponent x" "\<bar>x\<bar>" e] assms by simp
qed

lemma round_half_even_near:
  assumes "\<bar>x - of_int m\<bar> < 1 / 2"
  shows "round_half_even x = m"
proof (cases "of_int m \<le> x")
  case True
  then have "\<lfloor>x\<rfloor> = m" using assms by (intro floor_unique) simp_all
  then show ?thesis using assms True by (simp add: round_half_even_def)
next
  case False
  then have "\<lfloor>x\<rfloor> = m - 1" using assms by (intro floor_unique) simp_all
  then show ?thesis using assms False by (simp add: round_half_even_def)
qed

lemma round_half_even_tie:
  assumes "x - of_int m = 1 / 2 \<or> of_int m - x = 1 / 2" and "even m"
  shows "round_half_even x = m"
  using assms(1)
proof
  assume a: "x - of_int m = 1 / 2"
  then have "\<lfloor>x\<rfloor> = m" by (intro floor_unique) simp_all
  then show ?thesis using a assms(2) by (simp add: round_half_even_def)
next
  assume a: "of_int m - x = 1 / 2"
  then have x: "x = of_int (m - 1) + 1 / 2" by simp
  then have "\<lfloor>x\<rfloor> = m - 1" by (intro floor_unique) simp_all
  then show ?thesis using x assms(2) by (simp add: round_half_even_def)
qed

lemma round_double_eq:
  assumes "2 powi e \<le> \<bar>x\<bar>" "\<bar>x\<bar> < 2 powi (e + 1)"
    and "round_half_even (x / 2 powi (e - 52)) = m"
  shows "round_double x = of_int m * 2 powi (e - 52)"
proof -
  have "x \<noteq> 0"
  proof
    assume "x = 0"
    with assms(1) have "2 powi e \<le> (0::rat)" by simp
    moreover have "(0::rat) < 2 powi e" by simp
    ultimately show False by linarith
  qed
  then show ?thesis
    using binary_exponent_eq[OF assms(1,2)] assms(3)
    by (simp add: round_double_def Let_def)
qed

section \<open>Properties of the readability formulas\<close>

lemma compute_FleschReadingEase_guard:
  "S = 0 \<or> W = 0 \<or> T = 0 \<Longrightarrow> compute_FleschReadingEase S W T = Inr 0"
  by (simp add: compute_FleschReadingEase_def)

lemma compute_FleschKincaidGradeLevel_guard:
  "S = 0 \<or> W = 0 \<or> T = 0 \<Longrightarrow> compute_FleschKincaidGradeLevel S W T = Inr 0"
  by (simp add: compute_FleschKincaidGradeLevel_def)

lemma formulas_never_raise:
  "compute_FleschReadingEase S W T \<noteq> Inl e \<and> compute_FleschKincaidGradeLevel S W T \<noteq> Inl e"
  by (simp add: compute_FleschReadingEase_def compute_FleschKincaidGradeLevel_def truediv_def)

text \<open>
  Claim C6.  If one of the three counts is 0, both formulas return 0; in particular the
  reading ease is 0 when the syllable count is 0 and the grade level is 0 when the word
  count is 0.  The guard covers both divisors, so neither formula divides by zero on any
  input.
\<close>

theorem zero_guard:
  "(S = 0 \<or> W = 0 \<or> T = 0 \<longrightarrow>
      compute_FleschReadingEase S W T = Inr 0 \<and> compute_FleschKincaidGradeLevel S W T = Inr 0) \<and>
   compute_FleschReadingEase 0 W T = Inr 0 \<and>
   compute_FleschKincaidGradeLevel S 0 T = Inr 0 \<and>
   compute_FleschReadingEase S W T \<noteq> Inl ZeroDivisionError \<and>
   compute_FleschKincaidGradeLevel S W T \<noteq> Inl ZeroDivisionError"
  using formulas_never_raise[of S W T ZeroDivisionError]
  by (simp add: compute_FleschReadingEase_guard compute_FleschKincaidGradeLevel_guard)

theorem zero_guard_witness:
  "((5::int) = 0 \<or> (0::int) = 0 \<or> (3::int) = 0) \<and>
   compute_FleschReadingEase 5 0 3 = Inr 0 \<and> compute_FleschKincaidGradeLevel 5 0 3 = Inr 0"
  using zero_guard[of 5 0 3] by simp

section \<open>The worked example\<close>

lemma example_normalized:
  "getData [''The cat sat. The dog ran!''] = ''the cat sat XXX  the dog ran XXX ''"
  by code_simp

lemma example_words: "getNumberOfTotalWords ''the cat sat XXX  the dog ran XXX '' = 6"
  by code_simp

lemma example_sentences: "getNumberOfTotalSentences ''the cat sat XXX  the dog ran XXX '' = 2"
  by code_simp

lemma example_syllables: "getNumberOfTotalSyllables ''the cat sat XXX  the dog ran XXX '' = 6"
  by code_simp

text \<open>The roundings that occur in the two formulas for 6 syllables, 6 words and
  2 sentences; the product of 1.015 and 3 lies halfway between two floats.\<close>

lemma double_3: "round_double (3) = 3"
  using round_double_eq[of "1" "3" "6755399441055744"]
    round_half_even_near[of "3 / 2 powi (1 - 52)" "6755399441055744"]
  by simp

lemma double_1: "round_double (1) = 1"
  using round_double_eq[of "0" "1" "4503599627370496"]
    round_half_even_near[of "1 / 2 powi (0 - 52)" "4503599627370496"]
  by simp

lemma double_206_835: "round_double (41367 / 200) = 7277359600993567 / 35184372088832"
  using round_double_eq[of "7" "41367 / 200" "7277359600993567"]
    round_half_even_near[of "(41367 / 200) / 2 powi (7 - 52)" "7277359600993567"]
  by simp

lemma double_1_015: "round_double (203 / 200) = 4571153621781053 / 4503599627370496"
  using round_double_eq[of "0" "203 / 200" "4571153621781053"]
    round_half_even_near[of "(203 / 200) / 2 powi (0 - 52)" "4571153621781053"]
  by simp

lemma double_84_6: "round_double (423 / 5) = 2976597878715187 / 35184372088832"
  using round_double_eq[of "6" "423 / 5" "5953195757430374"]
    round_half_even_near[of "(423 / 5) / 2 powi (6 - 52)" "5953195757430374"]
  by simp

lemma ease_step1: "round_double (13713460865343159 / 4503599627370496) = 1714182608167895 / 562949953421312"
  using round_double_eq[of "1" "13713460865343159 / 4503599627370496" "6856730432671580"]
    round_half_even_tie[of "(13713460865343159 / 4503599627370496) / 2 powi (1 - 52)" "6856730432671580"]
  by simp

lemma ease_step2: "round_double (114723571007729177 / 562949953421312) = 3585111593991537 / 17592186044416"
  using round_double_eq[of "7" "114723571007729177 / 562949953421312" "7170223187983074"]
    round_half_even_near[of "(114723571007729177 / 562949953421312) / 2 powi (7 - 52)" "7170223187983074"]
  by simp

lemma ease_step3: "round_double (2976597878715187 / 35184372088832) = 2976597878715187 / 35184372088832"
  using round_double_eq[of "6" "2976597878715187 / 35184372088832" "5953195757430374"]
    round_half_even_near[of "(2976597878715187 / 35184372088832) / 2 powi (6 - 52)" "5953195757430374"]
  by simp

lemma ease_step4: "round_double (4193625309267887 / 35184372088832) = 4193625309267887 / 35184372088832"
  using round_double_eq[of "6" "4193625309267887 / 35184372088832" "8387250618535774"]
    round_half_even_near[of "(4193625309267887 / 35184372088832) / 2 powi (6 - 52)" "8387250618535774"]
  by simp

lemma double_0_39: "round_double (39 / 100) = 3512807709348987 / 9007199254740992"
  using round_double_eq[of "- 2" "39 / 100" "7025615418697974"]
    round_half_even_near[of "(39 / 100) / 2 powi (- 2 - 52)" "7025615418697974"]
  by simp

lemma double_11_8: "round_double (59 / 5) = 3321404725185741 / 281474976710656"
  using round_double_eq[of "3" "59 / 5" "6642809450371482"]
    round_half_even_near[of "(59 / 5) / 2 powi (3 - 52)" "6642809450371482"]
  by simp

lemma double_15_59: "round_double (1559 / 100) = 4388194886919127 / 281474976710656"
  using round_double_eq[of "3" "1559 / 100" "8776389773838254"]
    round_half_even_near[of "(1559 / 100) / 2 powi (3 - 52)" "8776389773838254"]
  by simp

lemma level_step1: "round_double (10538423128046961 / 9007199254740992) = 658651445502935 / 562949953421312"
  using round_double_eq[of "0" "10538423128046961 / 9007199254740992" "5269211564023480"]
    round_half_even_tie[of "(10538423128046961 / 9007199254740992) / 2 powi (0 - 52)" "5269211564023480"]
  by simp

lemma level_step2: "round_double (3321404725185741 / 281474976710656) = 3321404725185741 / 281474976710656"
  using round_double_eq[of "3" "3321404725185741 / 281474976710656" "6642809450371482"]
    round_half_even_near[of "(3321404725185741 / 281474976710656) / 2 powi (3 - 52)" "6642809450371482"]
  by simp

lemma level_step3: "round_double (7301460895874417 / 562949953421312) = 7301460895874417 / 562949953421312"
  using round_double_eq[of "3" "7301460895874417 / 562949953421312" "7301460895874417"]
    round_half_even_near[of "(7301460895874417 / 562949953421312) / 2 powi (3 - 52)" "7301460895874417"]
  by simp

lemma level_step4: "round_double (- (1474928877963837 / 562949953421312)) = - (1474928877963837 / 562949953421312)"
  using round_double_eq[of "1" "- (1474928877963837 / 562949953421312)" "- 5899715511855348"]
    round_half_even_near[of "(- (1474928877963837 / 562949953421312)) / 2 powi (1 - 52)" "- 5899715511855348"]
  by simp

(* ['double_3', 'double_1', 'double_206_835', 'double_1_015', 'double_84_6', 'ease_step1', 'ease_step2', 'ease_step3', 'ease_step4', 'double_0_39', 'double_11_8', 'double_15_59', 'level_step1', 'level_step2', 'level_step3', 'level_step4'] *)

lemma example_ease:
  "compute_FleschReadingEase 6 6 2 = Inr (4193625309267887 / 35184372088832)"
  by (simp add: compute_FleschReadingEase_def truediv_def float_sub_def float_mul_def
      double_3 double_1 double_206_835 double_1_015 double_84_6
      ease_step1 ease_step2 ease_step3 ease_step4)

lemma example_level:
  "compute_FleschKincaidGradeLevel 6 6 2 = Inr (- (1474928877963837 / 562949953421312))"
  by (simp add: compute_FleschKincaidGradeLevel_def truediv_def float_sub_def float_add_def
      float_mul_def double_3 double_1 double_0_39 double_11_8 double_15_59
      level_step1 level_step2 level_step3 level_step4)

lemma example_ease_cents:
  "round_half_even (4193625309267887 / 35184372088832 * 100) = 11919"
  using round_half_even_near[of "4193625309267887 / 35184372088832 * 100" 11919] by simp

lemma example_level_cents:
  "round_half_even (- (1474928877963837 / 562949953421312) * 100) = - 262"
  using round_half_even_near[of "- (1474928877963837 / 562949953421312) * 100" "- 262"] by simp

text \<open>
  Claim C3, as stated: the line \<open>The cat sat. The dog ran!\<close> is normalized to the
  string with one space between the first marker and \<open>the\<close>, and the two formulas
  return 119.19 and -2.62 for the counts 6, 6, 2.  Neither holds.  The period becomes
  the marker with a space on each side and the space that followed the period stays,
  so two spaces follow the first marker; and the floating-point results are the
  floats next to 119.19 and -2.62, not these numbers.
\<close>

theorem example_normalized_counterexample:
  "getData [''The cat sat. The dog ran!''] \<noteq> ''the cat sat XXX the dog ran XXX '' \<and>
   compute_FleschReadingEase 6 6 2 \<noteq> Inr 119.19 \<and>
   compute_FleschKincaidGradeLevel 6 6 2 \<noteq> Inr (- 2.62)"
  by (simp add: example_normalized example_ease example_level)

text \<open>
  Claim C3, amended.  The line \<open>The cat sat. The dog ran!\<close> is normalized to
  \<open>the cat sat XXX  the dog ran XXX \<close> (two spaces after the first marker); on that
  text the word count is 6, the sentence count 2 and the syllable count 6.  For these
  counts the reading ease is the float \<open>4193625309267887 / 2 ^ 45\<close>
  (119.19000000000003) and the grade level the float \<open>- 1474928877963837 / 2 ^ 49\<close>
  (-2.619999999999999); each is within \<open>1 / 10 ^ 13\<close> of 119.19 and -2.62, and these are
  their values to two decimals.
\<close>

theorem example_end_to_end:
  "getData [''The cat sat. The dog ran!''] = ''the cat sat XXX  the dog ran XXX '' \<and>
   getNumberOfTotalWords (getData [''The cat sat. The dog ran!'']) = 6 \<and>
   getNumberOfTotalSentences (getData [''The cat sat. The dog ran!'']) = 2 \<and>
   getNumberOfTotalSyllables (getData [''The cat sat. The dog ran!'']) = 6 \<and>
   compute_FleschReadingEase 6 6 2 = Inr (4193625309267887 / 2 ^ 45) \<and>
   compute_FleschKincaidGradeLevel 6 6 2 = Inr (- (1474928877963837 / 2 ^ 49)) \<and>
   \<bar>4193625309267887 / 2 ^ 45 - 119.19\<bar> < (1 / 10 ^ 13 :: rat) \<and>
   \<bar>- (1474928877963837 / 2 ^ 49) - (- 2.62)\<bar> < (1 / 10 ^ 13 :: rat) \<and>
   rat_of_int (round_half_even (4193625309267887 / 2 ^ 45 * 100)) / 100 = 119.19 \<and>
   rat_of_int (round_half_even (- (1474928877963837 / 2 ^ 49) * 100)) / 100 = - 2.62"
  using example_ease_cents example_level_cents
  by (simp add: example_normalized example_words example_sentences example_syllables
      example_ease example_level)

section \<open>Properties of the run\<close>

lemma counts_nonneg:
  "0 \<le> getNumberOfTotalWords f" "0 \<le> getNumberOfTotalSentences f"
  by (simp_all add: getNumberOfTotalWords_def getNumberOfTotalSentences_def Let_def)

lemma main_on_degenerate:
  assumes "getNumberOfTotalWords f = 0 \<or> getNumberOfTotalSentences f = 0"
  shows "main_on f = Inr (No_report ''ERROR:  Can not compute metrics without words.'')"
  using assms by (auto simp: main_on_def Let_def)

lemma main_on_report:
  assumes W: "getNumberOfTotalWords f \<noteq> 0" and T: "getNumberOfTotalSentences f \<noteq> 0"
  shows "\<exists>ease level.
           compute_FleschReadingEase (getNumberOfTotalSyllables f) (getNumberOfTotalWords f)
             (getNumberOfTotalSentences f) = Inr ease \<and>
           compute_FleschKincaidGradeLevel (getNumberOfTotalSyllables f) (getNumberOfTotalWords f)
             (getNumberOfTotalSentences f) = Inr level \<and>
           main_on f = Inr (Report_written
             \<lparr>syllables = getNumberOfTotalSyllables f, words = getNumberOfTotalWords f,
              sentences = getNumberOfTotalSentences f, readingEase = ease, readingLevel = level,
              top_section = printTopNwords f TOP_N_WORDS\<rparr>)"
proof -
  obtain ease where e: "compute_FleschReadingEase (getNumberOfTotalSyllables f)
      (getNumberOfTotalWords f) (getNumberOfTotalSentences f) = Inr ease"
    using formulas_never_raise[of "getNumberOfTotalSyllables f" "getNumberOfTotalWords f"
        "getNumberOfTotalSentences f"]
    by (cases "compute_FleschReadingEase (getNumberOfTotalSyllables f)
      (getNumberOfTotalWords f) (getNumberOfTotalSentences f)") auto
  obtain level where l: "compute_FleschKincaidGradeLevel (getNumberOfTotalSyllables f)
      (getNumberOfTotalWords f) (getNumberOfTotalSentences f) = Inr level"
    using formulas_never_raise[of "getNumberOfTotalSyllables f" "getNumberOfTotalWords f"
        "getNumberOfTotalSentences f"]
    by (cases "compute_FleschKincaidGradeLevel (getNumberOfTotalSyllables f)
      (getNumberOfTotalWords f) (getNumberOfTotalSentences f)") auto
  have pos: "0 < getNumberOfTotalWords f" "0 < getNumberOfTotalSentences f"
    using W T counts_nonneg[of f] by simp_all
  have "main_on f = Inr (Report_written
             \<lparr>syllables = getNumberOfTotalSyllables f, words = getNumberOfTotalWords f,
              sentences = getNumberOfTotalSentences f, readingEase = ease, readingLevel = level,
              top_section = printTopNwords f TOP_N_WORDS\<rparr>)"
    using pos e l by (simp add: main_on_def Let_def printReadingLevelReport_def)
  with e l show ?thesis by blast
qed

text \<open>
  Claim C8.  If the word count or the sentence count of the normalized text is 0, the
  run writes no report and prints the diagnostic message; otherwise both scores are
  computed and the report, with both sections, is written.  A run ends without a report
  in no other case, and no run ends in an exception of the formulas.
\<close>

theorem main_report_or_diagnostic:
  "(getNumberOfTotalWords f = 0 \<or> getNumberOfTotalSentences f = 0 \<longrightarrow>
      main_on f = Inr (No_report ''ERROR:  Can not compute metrics without words.'')) \<and>
   (getNumberOfTotalWords f \<noteq> 0 \<and> getNumberOfTotalSentences f \<noteq> 0 \<longrightarrow>
      (\<exists>r. main_on f = Inr (Report_written r) \<and>
           compute_FleschReadingEase (getNumberOfTotalSyllables f) (getNumberOfTotalWords f)
             (getNumberOfTotalSentences f) = Inr (readingEase r) \<and>
           compute_FleschKincaidGradeLevel (getNumberOfTotalSyllables f) (getNumberOfTotalWords f)
             (getNumberOfTotalSentences f) = Inr (readingLevel r) \<and>
           syllables r = getNumberOfTotalSyllables f \<and>
           words r = getNumberOfTotalWords f \<and>
           sentences r = getNumberOfTotalSentences f \<and>
           top_section r = printTopNwords f TOP_N_WORDS)) \<and>
   ((\<exists>d. main_on f = Inr (No_report d)) \<longleftrightarrow>
      getNumberOfTotalWords f = 0 \<or> getNumberOfTotalSentences f = 0) \<and>
   (\<forall>e. main_on f \<noteq> Inl e)"
proof (cases "getNumberOfTotalWords f = 0 \<or> getNumberOfTotalSentences f = 0")
  case True
  then show ?thesis using main_on_degenerate[of f] by auto
next
  case False
  then have nz: "getNumberOfTotalWords f \<noteq> 0" "getNumberOfTotalSentences f \<noteq> 0" by simp_all
  from main_on_report[OF nz] obtain ease level where
    e: "compute_FleschReadingEase (getNumberOfTotalSyllables f) (getNumberOfTotalWords f)
             (getNumberOfTotalSentences f) = Inr ease" and
    l: "compute_FleschKincaidGradeLevel (getNumberOfTotalSyllables f) (getNumberOfTotalWords f)
             (getNumberOfTotalSentences f) = Inr level" and
    m: "main_on f = Inr (Report_written
             \<lparr>syllables = getNumberOfTotalSyllables f, words = getNumberOfTotalWords f,
              sentences = getNumberOfTotalSentences f, readingEase = ease, readingLevel = level,
              top_section = printTopNwords f TOP_N_WORDS\<rparr>)"
    by blast
  show ?thesis using False e l m by simp
qed

theorem main_report_or_diagnostic_witness:
  "(getNumberOfTotalWords ''the cat sat'' = 0 \<or> getNumberOfTotalSentences ''the cat sat'' = 0) \<and>
   main_on ''the cat sat'' = Inr (No_report ''ERROR:  Can not compute metrics without words.'') \<and>
   (getNumberOfTotalWords ''the cat sat XXX '' \<noteq> 0 \<and>
    getNumberOfTotalSentences ''the cat sat XXX '' \<noteq> 0) \<and>
   (\<exists>r. main_on ''the cat sat XXX '' = Inr (Report_written r))"
proof -
  have a: "getNumberOfTotalSentences ''the cat sat'' = 0" by code_simp
  have b: "getNumberOfTotalWords ''the cat sat XXX '' \<noteq> 0" by code_simp
  have c: "getNumberOfTotalSentences ''the cat sat XXX '' \<noteq> 0" by code_simp
  show ?thesis
    using a b c main_report_or_diagnostic[of "''the cat sat''"]
      main_report_or_diagnostic[of "''the cat sat XXX ''"]
    by blast
qed

section \<open>Properties of the normalizer\<close>

lemma replace_append:
  assumes "old \<noteq> []"
    and "\<And>i. i < length a \<Longrightarrow> take (length old) (drop i (a @ b)) = old \<Longrightarrow> i + length old \<le> length a"
  shows "replace (a @ b) old new = replace a old new @ replace b old new"
  using assms
proof (induction "length a" arbitrary: a rule: less_induct)
  case less
  show ?case
  proof (cases a)
    case Nil
    then show ?thesis using less.prems(1) by simp
  next
    case (Cons c cs)
    show ?thesis
    proof (cases "take (length old) (a @ b) = old")
      case True
      have le: "length old \<le> length a"
        using less.prems(2)[of 0] True Cons by simp
      have ta: "take (length old) a = old" using True le by simp
      let ?a' = "drop (length old) a"
      have lt: "length ?a' < length a" using less.prems(1) Cons by (cases old) auto
      have cond: "\<And>i. i < length ?a' \<Longrightarrow> take (length old) (drop i (?a' @ b)) = old
                    \<Longrightarrow> i + length old \<le> length ?a'"
      proof -
        fix i assume i: "i < length ?a'" and m: "take (length old) (drop i (?a' @ b)) = old"
        have "?a' @ b = drop (length old) (a @ b)" using le by simp
        then have "drop i (?a' @ b) = drop (i + length old) (a @ b)"
          by (simp only: drop_drop)
        then have "take (length old) (drop (i + length old) (a @ b)) = old"
          using m by (simp only:)
        moreover have "i + length old < length a" using i by simp
        ultimately have "i + length old + length old \<le> length a" by (rule less.prems(2)[rotated])
        then show "i + length old \<le> length ?a'" by simp
      qed
      have IH: "replace (?a' @ b) old new = replace ?a' old new @ replace b old new"
        by (rule less.hyps[OF lt less.prems(1) cond])
      have d: "drop (length old) (a @ b) = ?a' @ b" using le by simp
      have "replace (a @ b) old new = new @ replace (?a' @ b) old new"
        using True less.prems(1) Cons d by simp
      moreover have "replace a old new = new @ replace ?a' old new"
        using ta less.prems(1) Cons by simp
      ultimately show ?thesis using IH by simp
    next
      case False
      have na: "take (length old) a \<noteq> old"
      proof
        assume t: "take (length old) a = old"
        have "length (take (length old) a) = length old" by (simp only: t)
        then have "length old \<le> length a" by simp
        then have "take (length old) (a @ b) = old" using t by simp
        with False show False by simp
      qed
      have cond: "\<And>i. i < length cs \<Longrightarrow> take (length old) (drop i (cs @ b)) = old
                    \<Longrightarrow> i + length old \<le> length cs"
      proof -
        fix i assume i: "i < length cs" and m: "take (length old) (drop i (cs @ b)) = old"
        have "Suc i + length old \<le> length a"
          by (rule less.prems(2)) (use i m Cons in simp_all)
        then show "i + length old \<le> length cs" using Cons by simp
      qed
      have IH: "replace (cs @ b) old new = replace cs old new @ replace b old new"
        by (rule less.hyps[OF _ less.prems(1) cond]) (simp add: Cons)
      show ?thesis using False na less.prems(1) Cons IH by simp
    qed
  qed
qed


lemma no_straddle_left:
  assumes m: "m \<notin> set (tl old)"
    and i: "i < length a"
    and t: "take (length old) (drop i (a @ m # rest)) = old"
  shows "i + length old \<le> length a"
proof (rule ccontr)
  assume "\<not> i + length old \<le> length a"
  then have k: "length a - i < length old" "0 < length a - i" using i by simp_all
  have "old ! (length a - i) = take (length old) (drop i (a @ m # rest)) ! (length a - i)"
    by (simp only: t)
  also have "\<dots> = drop i (a @ m # rest) ! (length a - i)"
    using k(1) by (rule nth_take)
  also have "\<dots> = (a @ m # rest) ! (i + (length a - i))"
    using i by (intro nth_drop) simp
  also have "\<dots> = m" using i by simp
  finally have "old ! (length a - i) = m" .
  moreover have "old ! (length a - i) = tl old ! (length a - i - 1)"
    using k by (cases old) (auto simp: nth_Cons')
  moreover have "length a - i - 1 < length (tl old)" using k by simp
  ultimately have "m \<in> set (tl old)" by (metis nth_mem)
  with m show False by simp
qed

lemma no_straddle_right:
  assumes h: "h \<notin> set old"
    and i: "i < length (a @ [h])"
    and t: "take (length old) (drop i ((a @ [h]) @ b)) = old"
  shows "i + length old \<le> length (a @ [h])"
proof (rule ccontr)
  assume "\<not> i + length old \<le> length (a @ [h])"
  then have k: "length a - i < length old" using i by simp
  have i': "i \<le> length a" using i by simp
  have "old ! (length a - i) = take (length old) (drop i ((a @ [h]) @ b)) ! (length a - i)"
    by (simp only: t)
  also have "\<dots> = drop i ((a @ [h]) @ b) ! (length a - i)"
    using k by (rule nth_take)
  also have "\<dots> = ((a @ [h]) @ b) ! (i + (length a - i))"
    using i' by (intro nth_drop) simp
  also have "\<dots> = h" using i' by (simp add: nth_append)
  finally have "old ! (length a - i) = h" .
  then have "h \<in> set old" using k by (metis nth_mem)
  with h show False by simp
qed

lemma replace_around:
  assumes old: "old \<noteq> []" and m: "m \<notin> set (tl old)" and h: "h \<notin> set old"
  shows "replace (a @ (m # mid @ [h]) @ b) old new
         = replace a old new @ replace (m # mid @ [h]) old new @ replace b old new"
proof -
  have "replace (a @ (m # mid @ [h]) @ b) old new
        = replace a old new @ replace ((m # mid @ [h]) @ b) old new"
  proof (rule replace_append[OF old])
    fix i assume "i < length a"
      and "take (length old) (drop i (a @ (m # mid @ [h]) @ b)) = old"
    then show "i + length old \<le> length a"
      using no_straddle_left[OF m, of i a "mid @ [h] @ b"] by simp
  qed
  also have "replace ((m # mid @ [h]) @ b) old new
        = replace (m # mid @ [h]) old new @ replace b old new"
  proof (rule replace_append[OF old])
    fix i assume "i < length (m # mid @ [h])"
      and "take (length old) (drop i ((m # mid @ [h]) @ b)) = old"
    then show "i + length old \<le> length (m # mid @ [h])"
      using no_straddle_right[OF h, of i "m # mid" b] by simp
  qed
  finally show ?thesis .
qed

lemma around_dr_dot:
  assumes "old \<noteq> []" "CHR ''d'' \<notin> set (tl old)" "CHR ''h'' \<notin> set old"
  shows "replace (a @ ''dr. smith'' @ b) old new
         = replace a old new @ replace ''dr. smith'' old new @ replace b old new"
  using replace_around[OF assms, of a "''r. smit''" b new] by simp

lemma around_dr:
  assumes "old \<noteq> []" "CHR ''d'' \<notin> set (tl old)" "CHR ''h'' \<notin> set old"
  shows "replace (a @ ''dr smith'' @ b) old new
         = replace a old new @ replace ''dr smith'' old new @ replace b old new"
  using replace_around[OF assms, of a "''r smit''" b new] by simp

lemma abbreviations_around:
  "abbreviations (a @ ''dr. smith'' @ b) = abbreviations a @ ''dr smith'' @ abbreviations b"
proof -
  have 1: "\<And>a b. replace (a @ ''dr. smith'' @ b) ''mr.'' ''mr''
            = replace a ''mr.'' ''mr'' @ ''dr. smith'' @ replace b ''mr.'' ''mr''"
    by (subst around_dr_dot) simp_all
  have 2: "\<And>a b. replace (a @ ''dr. smith'' @ b) ''mrs.'' ''mrs''
            = replace a ''mrs.'' ''mrs'' @ ''dr. smith'' @ replace b ''mrs.'' ''mrs''"
    by (subst around_dr_dot) simp_all
  have 3: "\<And>a b. replace (a @ ''dr. smith'' @ b) ''ms.'' ''ms''
            = replace a ''ms.'' ''ms'' @ ''dr. smith'' @ replace b ''ms.'' ''ms''"
    by (subst around_dr_dot) simp_all
  have 4: "\<And>a b. replace (a @ ''dr. smith'' @ b) ''dr.'' ''dr''
            = replace a ''dr.'' ''dr'' @ ''dr smith'' @ replace b ''dr.'' ''dr''"
    by (subst around_dr_dot) simp_all
  have 5: "\<And>a b. replace (a @ ''dr smith'' @ b) ''st.'' ''st''
            = replace a ''st.'' ''st'' @ ''dr smith'' @ replace b ''st.'' ''st''"
    by (subst around_dr) simp_all
  have 6: "\<And>a b. replace (a @ ''dr smith'' @ b) ''prof.'' ''prof''
            = replace a ''prof.'' ''prof'' @ ''dr smith'' @ replace b ''prof.'' ''prof''"
    by (subst around_dr) simp_all
  show ?thesis
    unfolding abbreviations_def Let_def by (simp only: 1 2 3 4 5 6)
qed

lemma mark_sentences_around:
  "mark_sentences (a @ ''dr smith'' @ b) = mark_sentences a @ ''dr smith'' @ mark_sentences b"
proof -
  have 1: "\<And>a b. replace (a @ ''dr smith'' @ b) ''.'' MARK
            = replace a ''.'' MARK @ ''dr smith'' @ replace b ''.'' MARK"
    by (subst around_dr) simp_all
  have 2: "\<And>a b. replace (a @ ''dr smith'' @ b) ''?'' MARK
            = replace a ''?'' MARK @ ''dr smith'' @ replace b ''?'' MARK"
    by (subst around_dr) simp_all
  have 3: "\<And>a b. replace (a @ ''dr smith'' @ b) ''!'' MARK
            = replace a ''!'' MARK @ ''dr smith'' @ replace b ''!'' MARK"
    by (subst around_dr) simp_all
  show ?thesis
    unfolding mark_sentences_def Let_def by (simp only: 1 2 3)
qed

lemma rstrip_append:
  assumes "M \<noteq> []" "\<not> isspace (last M)"
  shows "rstrip (M @ b) = M @ rstrip b"
proof -
  have hd: "dropWhile isspace (rev M) = rev M"
    using assms by (cases M rule: rev_cases) auto
  show ?thesis
  proof (cases "\<forall>x\<in>set (rev b). isspace x")
    case True
    then have "dropWhile isspace (rev b @ rev M) = dropWhile isspace (rev M)"
      by (intro dropWhile_append2) simp
    moreover have "dropWhile isspace (rev b) = []" using True by simp
    ultimately show ?thesis using hd by (simp add: rstrip_def)
  next
    case False
    then obtain x where "x \<in> set (rev b)" "\<not> isspace x" by blast
    then have "dropWhile isspace (rev b @ rev M) = dropWhile isspace (rev b) @ rev M"
      by (rule dropWhile_append1)
    then show ?thesis by (simp add: rstrip_def)
  qed
qed

lemma lower_dr: "lower ''dr. smith'' = ''dr. smith''"
  by code_simp

lemma not_space_h: "\<not> isspace CHR ''h''"
  by code_simp

lemma rstrip_around: "rstrip (a @ ''dr. smith'' @ b) = a @ ''dr. smith'' @ rstrip b"
  using rstrip_append[of "a @ ''dr. smith''" b] not_space_h by simp

lemma lower_around: "lower (a @ ''dr. smith'' @ b) = lower a @ ''dr. smith'' @ lower b"
  using lower_dr by (simp add: lower_def)

lemma process_line_dr: "process_line ''dr. smith'' = ''dr smith''"
  by code_simp

lemma process_line_dr_sentences: "getNumberOfTotalSentences (process_line ''dr. smith'') = 0"
  by code_simp

text \<open>
  Claim C7.  The abbreviation substitutions run on the lowercased line before the
  sentence marks are put in, so the period of an abbreviation is gone when the periods
  are marked.  Where the lowercased line contains \<open>dr. smith\<close>, the normalized line has
  \<open>dr smith\<close> at that place, with no marker in it, between the normalized text before
  and the normalized text after it; the same holds for a raw line that contains
  \<open>dr. smith\<close>, and the line \<open>dr. smith\<close> itself gives \<open>dr smith\<close> and no sentence.
\<close>

theorem abbreviation_before_marker:
  "(lower (rstrip line) = a @ ''dr. smith'' @ b \<longrightarrow>
      process_line line
        = mark_sentences (abbreviations a) @ ''dr smith'' @ mark_sentences (abbreviations b)) \<and>
   process_line (a @ ''dr. smith'' @ b)
     = mark_sentences (abbreviations (lower a)) @ ''dr smith'' @
       mark_sentences (abbreviations (lower (rstrip b))) \<and>
   process_line line = mark_sentences (abbreviations (lower (rstrip line))) \<and>
   process_line ''dr. smith'' = ''dr smith'' \<and>
   getNumberOfTotalSentences (process_line ''dr. smith'') = 0"
proof -
  have unfold: "\<And>l. process_line l = mark_sentences (abbreviations (lower (rstrip l)))"
    by (simp only: process_line_def Let_def)
  have A: "lower (rstrip line) = a @ ''dr. smith'' @ b \<longrightarrow>
      process_line line
        = mark_sentences (abbreviations a) @ ''dr smith'' @ mark_sentences (abbreviations b)"
  proof
    assume "lower (rstrip line) = a @ ''dr. smith'' @ b"
    then show "process_line line
        = mark_sentences (abbreviations a) @ ''dr smith'' @ mark_sentences (abbreviations b)"
      by (simp only: unfold abbreviations_around mark_sentences_around)
  qed
  have B: "process_line (a @ ''dr. smith'' @ b)
     = mark_sentences (abbreviations (lower a)) @ ''dr smith'' @
       mark_sentences (abbreviations (lower (rstrip b)))"
    by (simp only: unfold rstrip_around lower_around abbreviations_around mark_sentences_around)
  show ?thesis
    using A B unfold[of line] process_line_dr process_line_dr_sentences by blast
qed

theorem abbreviation_before_marker_witness:
  "lower (rstrip ''Call Dr. Smith now. '') = ''call '' @ ''dr. smith'' @ '' now.'' \<and>
   process_line ''Call Dr. Smith now. ''
     = mark_sentences (abbreviations ''call '') @ ''dr smith'' @
       mark_sentences (abbreviations '' now.'') \<and>
   process_line ''Call Dr. Smith now. '' = ''call dr smith now XXX ''"
proof -
  have h: "lower (rstrip ''Call Dr. Smith now. '') = ''call '' @ ''dr. smith'' @ '' now.''"
    by code_simp
  have v: "process_line ''Call Dr. Smith now. '' = ''call dr smith now XXX ''"
    by code_simp
  show ?thesis
    using h v abbreviation_before_marker[of "''Call Dr. Smith now. ''" "''call ''" "'' now.''"]
    by blast
qed

section \<open>Properties of the frequency analyzer\<close>

lemma keys_dict_set_old: "k \<in> set (map fst d) \<Longrightarrow> map fst (dict_set d k v) = map fst d"
  by (induction d) force+

lemma keys_dict_set_new: "k \<notin> set (map fst d) \<Longrightarrow> map fst (dict_set d k v) = map fst d @ [k]"
  by (induction d) auto

lemma keys_dict_set:
  "map fst (dict_set d k v) = (if k \<in> set (map fst d) then map fst d else map fst d @ [k])"
  using keys_dict_set_old[of k d v] keys_dict_set_new[of k d v] by (simp split: if_splits)

lemma map_of_dict_set: "map_of (dict_set d k v) = (map_of d)(k \<mapsto> v)"
  by (induction d) (auto simp: fun_eq_iff)

lemma dict_set_new: "k \<notin> set (map fst d) \<Longrightarrow> dict_set d k v = d @ [(k, v)]"
  by (induction d) auto

lemma keys_count_word:
  "map fst (count_word WC w) = (if w \<in> set (map fst WC) then map fst WC else map fst WC @ [w])"
  by (simp add: count_word_def keys_dict_set split: option.split)

lemma map_of_count_word:
  "map_of (count_word WC w) =
     (map_of WC)(w \<mapsto> (case map_of WC w of Some n \<Rightarrow> n + 1 | None \<Rightarrow> 1))"
  by (simp add: count_word_def map_of_dict_set split: option.split)

lemma count_words_snoc: "count_words (ws @ [w]) = count_word (count_words ws) w"
  by (simp add: count_words_def)

lemma keys_count_words:
  "distinct (map fst (count_words ws)) \<and> set (map fst (count_words ws)) = set ws"
proof (induction ws rule: rev_induct)
  case Nil
  show ?case by (simp add: count_words_def)
next
  case (snoc w ws)
  then show ?case by (auto simp: count_words_snoc keys_count_word)
qed

lemma map_of_count_words:
  "map_of (count_words ws) w = (if w \<in> set ws then Some (int (count_list ws w)) else None)"
proof (induction ws arbitrary: w rule: rev_induct)
  case Nil
  show ?case by (simp add: count_words_def)
next
  case (snoc x ws)
  have "map_of (count_words ws) x = (if x \<in> set ws then Some (int (count_list ws x)) else None)"
    by (rule snoc.IH[where ?w = x])
  then show ?case using snoc.IH[of w] by (auto simp: count_words_snoc map_of_count_word)
qed

lemma first_seen_snoc_old: "k \<in> set ws \<Longrightarrow> first_seen (ws @ [w]) k = first_seen ws k"
  by (simp add: first_seen_def takeWhile_append1)

lemma first_seen_less: "k \<in> set ws \<Longrightarrow> first_seen ws k < length ws"
  unfolding first_seen_def by (induction ws) auto

lemma first_seen_snoc_new: "w \<notin> set ws \<Longrightarrow> first_seen (ws @ [w]) w = length ws"
  unfolding first_seen_def by (induction ws) auto

lemma keys_in_order:
  "sorted_wrt (\<lambda>a b. first_seen ws a < first_seen ws b) (map fst (count_words ws))"
proof (induction ws rule: rev_induct)
  case Nil
  show ?case by (simp add: count_words_def)
next
  case (snoc w ws)
  let ?ks = "map fst (count_words ws)"
  have ks: "set ?ks = set ws" using keys_count_words[of ws] by simp
  have old: "sorted_wrt (\<lambda>a b. first_seen (ws @ [w]) a < first_seen (ws @ [w]) b) ?ks"
    using snoc by (rule sorted_wrt_mono_rel[rotated]) (use ks in \<open>auto simp: first_seen_snoc_old\<close>)
  show ?case
  proof (cases "w \<in> set ws")
    case True
    then show ?thesis using old ks by (simp add: count_words_snoc keys_count_word)
  next
    case False
    have "\<forall>k\<in>set ws. first_seen (ws @ [w]) k < first_seen (ws @ [w]) w"
      using False by (simp add: first_seen_snoc_old first_seen_snoc_new first_seen_less)
    then show ?thesis
      using old False ks by (simp add: count_words_snoc keys_count_word sorted_wrt_append)
  qed
qed

lemma insort_lex:
  fixes f :: "'a \<Rightarrow> int"
  assumes "sorted_wrt (\<lambda>p q. f p < f q \<or> (f p = f q \<and> R p q)) ys"
    and "\<forall>y\<in>set ys. R x y"
  shows "sorted_wrt (\<lambda>p q. f p < f q \<or> (f p = f q \<and> R p q)) (insort_key f x ys)"
  using assms
proof (induction ys)
  case Nil
  show ?case by simp
next
  case (Cons y ys)
  show ?case
  proof (cases "f x \<le> f y")
    case True
    have "\<forall>z\<in>set ys. f y \<le> f z" using Cons.prems(1) by auto
    then have "\<forall>z\<in>set (y # ys). f x < f z \<or> (f x = f z \<and> R x z)"
      using True Cons.prems(2) by force
    then show ?thesis using True Cons.prems(1) by simp
  next
    case False
    have "sorted_wrt (\<lambda>p q. f p < f q \<or> (f p = f q \<and> R p q)) (insort_key f x ys)"
      using Cons by simp
    moreover have "\<forall>z\<in>set (insort_key f x ys). f y < f z \<or> (f y = f z \<and> R y z)"
      using False Cons.prems(1) by (auto simp: set_insort_key)
    ultimately show ?thesis using False by simp
  qed
qed

lemma sort_key_lex:
  fixes f :: "'a \<Rightarrow> int"
  assumes "sorted_wrt R xs"
  shows "sorted_wrt (\<lambda>p q. f p < f q \<or> (f p = f q \<and> R p q)) (sort_key f xs)"
  using assms
proof (induction xs)
  case Nil
  show ?case by simp
next
  case (Cons x xs)
  have "sorted_wrt (\<lambda>p q. f p < f q \<or> (f p = f q \<and> R p q)) (sort_key f xs)"
    using Cons by simp
  moreover have "\<forall>y\<in>set (sort_key f xs). R x y" using Cons.prems by simp
  ultimately show ?case by (simp add: insort_lex)
qed

lemma dict_of_loop:
  "distinct (map fst (acc @ items)) \<Longrightarrow>
   foldl (\<lambda>d (k, v). dict_set d k v) acc items = acc @ items"
proof (induction items arbitrary: acc)
  case Nil
  show ?case by simp
next
  case (Cons x items)
  obtain k v where x: "x = (k, v)" by (cases x)
  have new: "k \<notin> set (map fst acc)" using Cons.prems x by auto
  have "distinct (map fst ((acc @ [(k, v)]) @ items))" using Cons.prems x by simp
  then have "foldl (\<lambda>d (k, v). dict_set d k v) (acc @ [(k, v)]) items = (acc @ [(k, v)]) @ items"
    by (rule Cons.IH)
  then show ?case using x new by (simp add: dict_set_new)
qed

lemma dict_of_distinct: "distinct (map fst items) \<Longrightarrow> dict_of items = items"
  using dict_of_loop[of "[]" items] by (simp add: dict_of_def)

lemma distinct_keys_sort:
  "distinct (map fst xs) \<Longrightarrow> distinct (map fst (sort_key f xs))"
  by (simp add: distinct_map)

lemma sorted_WC_eq:
  "distinct (map fst WC) \<Longrightarrow> sorted_WC WC = sort_key (\<lambda>x. - snd x) WC"
  by (simp add: sorted_WC_def dict_of_distinct distinct_keys_sort)

lemma ranking_eq: "ranking s = sort_key (\<lambda>x. - snd x) (count_words (listOfWords s))"
  using keys_count_words[of "listOfWords s"] by (simp add: ranking_def sorted_WC_eq)

lemma ranking_keys:
  "distinct (map fst (ranking s)) \<and> set (map fst (ranking s)) = set (listOfWords s)"
  using keys_count_words[of "listOfWords s"] by (simp add: ranking_eq distinct_keys_sort)

lemma ranking_counts:
  "map snd (ranking s) = map (\<lambda>w. int (count_list (listOfWords s) w)) (map fst (ranking s))"
proof -
  have "\<forall>p\<in>set (ranking s). snd p = int (count_list (listOfWords s) (fst p))"
  proof
    fix p assume "p \<in> set (ranking s)"
    then have p: "p \<in> set (count_words (listOfWords s))" by (simp add: ranking_eq)
    then have "(fst p, snd p) \<in> set (count_words (listOfWords s))" by simp
    then have "map_of (count_words (listOfWords s)) (fst p) = Some (snd p)"
      using keys_count_words[of "listOfWords s"] by (simp only: map_of_eq_Some_iff)
    moreover have "fst p \<in> set (listOfWords s)"
      using p keys_count_words[of "listOfWords s"] by (metis image_eqI list.set_map)
    ultimately show "snd p = int (count_list (listOfWords s) (fst p))"
      by (simp add: map_of_count_words)
  qed
  then show ?thesis by simp
qed

lemma ranking_sorted: "sorted_wrt (ranks_before (listOfWords s)) (ranking s)"
proof -
  let ?ws = "listOfWords s"
  have "sorted_wrt (\<lambda>p q. first_seen ?ws (fst p) < first_seen ?ws (fst q)) (count_words ?ws)"
    using keys_in_order[of ?ws] by (simp add: sorted_wrt_map)
  then have "sorted_wrt (\<lambda>p q. - snd p < - snd q \<or>
       (- snd p = - snd q \<and> first_seen ?ws (fst p) < first_seen ?ws (fst q)))
     (sort_key (\<lambda>x. - snd x) (count_words ?ws))"
    by (rule sort_key_lex)
  then show ?thesis
    by (simp add: ranking_eq ranks_before_def[abs_def])
qed

lemma top_loop_eq:
  "top_loop xs N count =
     map (\<lambda>p. (snd p, fst p)) (take (nat (N - count + 1)) (filter (\<lambda>p. fst p \<noteq> ''XXX'') xs))"
proof (induction xs arbitrary: count)
  case Nil
  show ?case by simp
next
  case (Cons x xs)
  obtain w c where x: "x = (w, c)" by (cases x)
  show ?case
  proof (cases "w \<noteq> ''XXX'' \<and> count \<le> N")
    case True
    then have "nat (N - count + 1) = Suc (nat (N - (count + 1) + 1))" by linarith
    then show ?thesis using True x Cons.IH[of "count + 1"] by simp
  next
    case False
    show ?thesis
    proof (cases "w = ''XXX''")
      case True
      then show ?thesis using x Cons.IH[of count] by simp
    next
      case notmarker: False
      then have "nat (N - count + 1) = 0" using False by simp
      then show ?thesis using False notmarker x Cons.IH[of count] by simp
    qed
  qed
qed

lemma top_entries_eq:
  "top_entries s N =
     map (\<lambda>p. (snd p, fst p)) (take (nat N) (filter (\<lambda>p. fst p \<noteq> ''XXX'') (ranking s)))"
  by (simp add: top_entries_def top_loop_eq)

lemma length_non_marker:
  "length (filter (\<lambda>p. fst p \<noteq> ''XXX'') (ranking s)) = card (set (listOfWords s) - {''XXX''})"
proof -
  have "length (filter (\<lambda>p. fst p \<noteq> ''XXX'') (ranking s))
        = length (filter (\<lambda>w. w \<noteq> ''XXX'') (map fst (ranking s)))"
    by (simp add: filter_map o_def)
  also have "\<dots> = card ({w. w \<noteq> ''XXX''} \<inter> set (map fst (ranking s)))"
    using ranking_keys[of s] by (simp only: distinct_length_filter)
  also have "{w. w \<noteq> ''XXX''} \<inter> set (map fst (ranking s)) = set (listOfWords s) - {''XXX''}"
    using ranking_keys[of s] by auto
  finally show ?thesis .
qed

lemma top_entries_length:
  "int (length (top_entries s N)) = min (max 0 N) (int (card (set (listOfWords s) - {''XXX''})))"
  unfolding top_entries_eq length_map length_take length_non_marker by linarith

lemma top_entries_no_marker: "''XXX'' \<notin> snd ` set (top_entries s N)"
  by (auto simp: top_entries_eq dest: in_set_takeD)

text \<open>
  Claim C4.  The marker \<open>XXX\<close> is never the token of an entry that \<open>printTopNwords\<close>
  emits, and leaving it out costs no place: the entries are the first \<open>N\<close> of the
  ranking with the marker taken out, so when at least \<open>N + 1\<close> different tokens other
  than the marker occur, exactly \<open>N\<close> entries are emitted (none for a negative \<open>N\<close>),
  wherever the marker stands in the ranking.
\<close>

theorem marker_excluded:
  "''XXX'' \<notin> snd ` set (top_entries s N) \<and>
   (N + 1 \<le> int (card (set (listOfWords s) - {''XXX''})) \<longrightarrow>
      int (length (top_entries s N)) = max 0 N) \<and>
   int (length (top_entries s N)) = min (max 0 N) (int (card (set (listOfWords s) - {''XXX''}))) \<and>
   top_entries s N =
     map (\<lambda>p. (snd p, fst p)) (take (nat N) (filter (\<lambda>p. fst p \<noteq> ''XXX'') (ranking s)))"
  using top_entries_no_marker[of s N] top_entries_length[of s N] top_entries_eq[of s N]
  by (simp add: min_def max_def)

theorem marker_excluded_witness:
  "2 + 1 \<le> int (card (set (listOfWords ''a XXX b XXX c XXX '') - {''XXX''})) \<and>
   int (length (top_entries ''a XXX b XXX c XXX '' 2)) = max 0 2 \<and>
   ranking ''a XXX b XXX c XXX '' = [(''XXX'', 3), (''a'', 1), (''b'', 1), (''c'', 1)] \<and>
   top_entries ''a XXX b XXX c XXX '' 2 = [(1, ''a''), (1, ''b'')]"
proof -
  have h: "2 + 1 \<le> int (card (set (listOfWords ''a XXX b XXX c XXX '') - {''XXX''}))"
    by code_simp
  have r: "ranking ''a XXX b XXX c XXX '' = [(''XXX'', 3), (''a'', 1), (''b'', 1), (''c'', 1)]"
    by code_simp
  have t: "top_entries ''a XXX b XXX c XXX '' 2 = [(1, ''a''), (1, ''b'')]"
    by code_simp
  show ?thesis
    using h r t marker_excluded[of "''a XXX b XXX c XXX ''" 2] by blast
qed

lemma top_entries_sorted:
  "sorted_wrt (\<lambda>e1 e2. ranks_before (listOfWords s) (snd e1, fst e1) (snd e2, fst e2))
     (top_entries s N)"
proof -
  have "sorted_wrt (ranks_before (listOfWords s))
          (take (nat N) (filter (\<lambda>p. fst p \<noteq> ''XXX'') (ranking s)))"
    by (intro sorted_wrt_take sorted_wrt_filter ranking_sorted)
  then show ?thesis by (simp add: top_entries_eq sorted_wrt_map)
qed

lemma tie_example_ranking:
  "ranking ''the the cat cat dog'' = [(''the'', 2), (''cat'', 2), (''dog'', 1)]"
  by code_simp

lemma tie_example_entries:
  "top_entries ''the the cat cat dog'' TOP_N_WORDS = [(2, ''the''), (2, ''cat''), (1, ''dog'')]"
  by code_simp

text \<open>
  Claim C5.  The ranking lists every token once, with its number of occurrences, a
  token with more occurrences before a token with fewer, and tokens with the same
  number in the order of their first occurrence; the emitted entries keep that order.
  For \<open>the the cat cat dog\<close> the ranking is \<open>the\<close>, \<open>cat\<close>, \<open>dog\<close>.
\<close>

theorem ranking_order:
  "sorted_wrt (ranks_before (listOfWords s)) (ranking s) \<and>
   sorted_wrt (\<lambda>e1 e2. ranks_before (listOfWords s) (snd e1, fst e1) (snd e2, fst e2))
     (top_entries s N) \<and>
   distinct (map fst (ranking s)) \<and>
   set (map fst (ranking s)) = set (listOfWords s) \<and>
   map snd (ranking s) = map (\<lambda>w. int (count_list (listOfWords s) w)) (map fst (ranking s)) \<and>
   ranking ''the the cat cat dog'' = [(''the'', 2), (''cat'', 2), (''dog'', 1)] \<and>
   top_entries ''the the cat cat dog'' TOP_N_WORDS = [(2, ''the''), (2, ''cat''), (1, ''dog'')]"
  using ranking_sorted[of s] top_entries_sorted[of s N] ranking_keys[of s] ranking_counts[of s]
    tie_example_ranking tie_example_entries
  by blast

end
